theory Spec2Isabelle
  imports Main
begin

section \<open>Errors and panics\<close>

text \<open>
  Modelled from the spec: \<open>ErrNotLockable\<close>, the distinguished "not lockable" error that
  \<^verbatim>\<open>getRefreshedSession\<close> compares against with \<^verbatim>\<open>==\<close>. Its declaration is not among
  the sources (interfaces.go declares \<^verbatim>\<open>ErrLockNotObtained\<close> and \<^verbatim>\<open>ErrNotLocked\<close>,
  which the loader never mentions).

  The other Go \<^verbatim>\<open>error\<close> values: \<open>ErrorsNew m\<close> is any plain error value with message
  \<open>m\<close> (created by \<^verbatim>\<open>errors.New\<close> in the loader, or returned by a store, a provider
  callback, the cipher or the JSON codec); \<open>FmtErrorf f e\<close> is \<^verbatim>\<open>fmt.Errorf(f, ..., e)\<close>,
  a new error built from the format \<open>f\<close> around the error \<open>e\<close> (the session summary that
  one of the formats also prints is not kept).
\<close>

datatype error =
    ErrNotLockable
  | ErrorsNew string
  | FmtErrorf string error

datatype panic = NilPointerDereference | IndexOutOfRange

section \<open>pkg/middleware/stored\_session.go\<close>

subsection \<open>State, events and collaborators\<close>

text \<open>
  The loader only orchestrates calls on collaborators: the session store, the three
  provider callbacks, the clock and the next handler. Their effects are threaded through
  an opaque world \<open>'w\<close> (backend, request, response writer, clock, heap); a session
  pointer is a value of the opaque type \<open>'s\<close>, and a possibly nil pointer is an
  \<open>'s option\<close>. Every call on a collaborator and every log line is recorded, in order,
  in \<open>trace\<close>.
\<close>

datatype event =
    CallLoad
  | CallLoadWithLock
  | CallReleaseLock
  | CallSave
  | CallClear
  | CallRefreshSession
  | CallIsRefreshSessionNeeded
  | CallValidateSessionState
  | CallSleep
  | CallNext
  | LogErrorLoading
  | LogErrorRemoving
  | LogRefreshing
  | LogErrorSaving

text \<open>
  Modelled from the spec: the mutable scope of the request, of which the loader reads and
  writes the field \<^verbatim>\<open>Session\<close> only (package middlewareapi is not among the sources).
  The scope pointer of a request may be nil: \<open>scope\<close> is an option.
\<close>

record 's RequestScope =
  Session :: "'s option"

record ('s, 'w) state =
  world :: 'w
  trace :: "event list"
  scope :: "'s RequestScope option"

text \<open>
  The store, for the request being served (\<^verbatim>\<open>rw\<close> and \<^verbatim>\<open>req\<close> are fixed during one
  invocation of the handler and live in the world).

  Modelled from the spec: \<open>LoadWithLock\<close> and \<open>ReleaseLock\<close>, the lock-aware pair the
  loader calls; the interface in interfaces.go has \<^verbatim>\<open>Save\<close>, \<^verbatim>\<open>Load\<close> and
  \<^verbatim>\<open>Clear\<close> only. \<open>LoadWithLock\<close> returns like \<open>Load\<close>; whatever \<open>ReleaseLock\<close>
  returns is discarded by the loader.
\<close>

record ('s, 'w) SessionStore =
  Save :: "'s option \<Rightarrow> 'w \<Rightarrow> error option \<times> 'w"
  Load :: "'w \<Rightarrow> ('s option \<times> error option) \<times> 'w"
  Clear :: "'w \<Rightarrow> error option \<times> 'w"
  LoadWithLock :: "'w \<Rightarrow> ('s option \<times> error option) \<times> 'w"
  ReleaseLock :: "'w \<Rightarrow> 'w"

record ('s, 'w) storedSessionLoader =
  store :: "('s, 'w) SessionStore"
  refreshPeriod :: int
  refreshSessionWithProvider :: "'s option \<Rightarrow> 'w \<Rightarrow> error option \<times> 'w"
  isRefreshSessionNeededWithProvider :: "'s option \<Rightarrow> 'w \<Rightarrow> bool \<times> 'w"
  validateSessionState :: "'s option \<Rightarrow> 'w \<Rightarrow> bool \<times> 'w"

text \<open>
  What the loader uses from outside the file, as parameters: the methods \<^verbatim>\<open>Age\<close> and
  \<^verbatim>\<open>IsExpired\<close> of the session type of package sessions (both read the clock of the
  world; that type is not among the sources), and \<^verbatim>\<open>time.Sleep\<close>. A
  \<^verbatim>\<open>time.Duration\<close> is a number of nanoseconds; the loader only compares durations,
  so they are integers.
\<close>

record ('s, 'w) runtime =
  Age :: "'w \<Rightarrow> 's \<Rightarrow> int"
  IsExpired :: "'w \<Rightarrow> 's \<Rightarrow> bool"
  Sleep :: "int \<Rightarrow> 'w \<Rightarrow> 'w"

definition Millisecond :: int where
  "Millisecond = 1000000"

definition call :: "event \<Rightarrow> ('w \<Rightarrow> 'a \<times> 'w) \<Rightarrow> ('s, 'w) state \<Rightarrow> 'a \<times> ('s, 'w) state" where
  "call ev f st =
     (case f (world st) of (r, w') \<Rightarrow> (r, st\<lparr>world := w', trace := trace st @ [ev]\<rparr>))"

definition effect :: "event \<Rightarrow> ('w \<Rightarrow> 'w) \<Rightarrow> ('s, 'w) state \<Rightarrow> ('s, 'w) state" where
  "effect ev f st = st\<lparr>world := f (world st), trace := trace st @ [ev]\<rparr>"

definition logEvent :: "event \<Rightarrow> ('s, 'w) state \<Rightarrow> ('s, 'w) state" where
  "logEvent ev st = st\<lparr>trace := trace st @ [ev]\<rparr>"

subsection \<open>The loader\<close>

definition isRefreshPeriodOver ::
  "('s, 'w) storedSessionLoader \<Rightarrow> ('s, 'w) runtime \<Rightarrow> 's \<Rightarrow> ('s, 'w) state \<Rightarrow> bool" where
  "isRefreshPeriodOver l rt session st =
     (refreshPeriod l > 0 \<and> Age rt (world st) session \<ge> refreshPeriod l)"

definition validateSession ::
  "('s, 'w) storedSessionLoader \<Rightarrow> ('s, 'w) runtime \<Rightarrow> 's \<Rightarrow> ('s, 'w) state
     \<Rightarrow> error option \<times> ('s, 'w) state" where
  "validateSession l rt session st =
     (if IsExpired rt (world st) session then (Some (ErrorsNew ''session is expired''), st)
      else
        (case call CallValidateSessionState (validateSessionState l (Some session)) st of
           (valid, st1) \<Rightarrow>
             if \<not> valid then (Some (ErrorsNew ''session is invalid''), st1)
             else (None, st1)))"

definition refreshSession ::
  "('s, 'w) storedSessionLoader \<Rightarrow> 's option \<Rightarrow> ('s, 'w) state
     \<Rightarrow> error option \<times> ('s, 'w) state" where
  "refreshSession l session st =
     (case call CallRefreshSession (refreshSessionWithProvider l session) st of
        (err, st1) \<Rightarrow>
          (case err of
             Some e \<Rightarrow> (Some (FmtErrorf ''error refreshing access token: %v'' e), st1)
           | None \<Rightarrow>
               if session = None then (None, st1)
               else
                 (case call CallSave (Save (store l) session) st1 of
                    (err', st2) \<Rightarrow>
                      (case err' of
                         Some e \<Rightarrow>
                           (Some (FmtErrorf ''error saving session: %v'' e),
                            logEvent LogErrorSaving st2)
                       | None \<Rightarrow> (None, st2)))))"

function retryLoop ::
  "('s, 'w) storedSessionLoader \<Rightarrow> ('s, 'w) runtime \<Rightarrow> int \<Rightarrow> int \<Rightarrow> ('s, 'w) state
     \<Rightarrow> ('s option \<times> error option) \<times> ('s, 'w) state" where
  "retryLoop l rt i attempts st =
     (if i < attempts then
        (case call CallLoad (Load (store l)) st of
           ((session, err), st1) \<Rightarrow>
             (case err of
                Some e \<Rightarrow> ((None, Some e), st1)
              | None \<Rightarrow>
                  (case session of
                     None \<Rightarrow> ((None, None), st1)
                   | Some s \<Rightarrow>
                       if \<not> isRefreshPeriodOver l rt s st1 then ((Some s, None), st1)
                       else
                         (case call CallIsRefreshSessionNeeded
                                 (isRefreshSessionNeededWithProvider l (Some s)) st1 of
                            (needed, st2) \<Rightarrow>
                              if \<not> needed then ((Some s, None), st2)
                              else retryLoop l rt (i + 1) attempts
                                     (effect CallSleep (Sleep rt (100 * Millisecond)) st2)))))
      else ((None, None), st))"
  by pat_completeness auto
termination
  by (relation "measure (\<lambda>(l, rt, i, attempts, st). nat (attempts - i))") auto

declare retryLoop.simps [simp del]

text \<open>
  \<open>retryLoop l rt i attempts st\<close> is the \<^verbatim>\<open>for\<close> loop of
  \<^verbatim>\<open>retryLoadingValidSession\<close> from the test \<^verbatim>\<open>i < attempts\<close> of iteration \<open>i\<close> on,
  in state \<open>st\<close>; the function enters it with \<open>i = 0\<close>.
\<close>

definition retryLoadingValidSession ::
  "('s, 'w) storedSessionLoader \<Rightarrow> ('s, 'w) runtime \<Rightarrow> int \<Rightarrow> ('s, 'w) state
     \<Rightarrow> ('s option \<times> error option) \<times> ('s, 'w) state" where
  "retryLoadingValidSession l rt attempts st = retryLoop l rt 0 attempts st"

text \<open>
  \<^verbatim>\<open>defer s.store.ReleaseLock(req)\<close> runs after the returned values have been computed,
  on every path out of the function: \<open>getRefreshedSession\<close> runs the body and then
  releases.
\<close>

definition getRefreshedSession_body ::
  "('s, 'w) storedSessionLoader \<Rightarrow> ('s, 'w) runtime \<Rightarrow> ('s, 'w) state
     \<Rightarrow> ('s option \<times> error option) \<times> ('s, 'w) state" where
  "getRefreshedSession_body l rt st =
     (case call CallLoadWithLock (LoadWithLock (store l)) st of
        ((session, err), st1) \<Rightarrow>
          (case err of
             Some e \<Rightarrow>
               if e = ErrNotLockable then retryLoadingValidSession l rt 10 st1
               else ((None, Some e), st1)
           | None \<Rightarrow>
               (case session of
                  None \<Rightarrow> ((None, None), st1)
                | Some s \<Rightarrow>
                    (case call CallIsRefreshSessionNeeded
                            (isRefreshSessionNeededWithProvider l (Some s)) st1 of
                       (needed, st2) \<Rightarrow>
                         if needed then
                           (case refreshSession l (Some s) (logEvent LogRefreshing st2) of
                              (err', st3) \<Rightarrow>
                                (case err' of
                                   Some e \<Rightarrow>
                                     ((None,
                                       Some (FmtErrorf
                                         ''error refreshing access token for session (%s): %v'' e)),
                                      st3)
                                 | None \<Rightarrow> ((Some s, None), st3)))
                         else ((Some s, None), st2)))))"

definition getRefreshedSession ::
  "('s, 'w) storedSessionLoader \<Rightarrow> ('s, 'w) runtime \<Rightarrow> ('s, 'w) state
     \<Rightarrow> ('s option \<times> error option) \<times> ('s, 'w) state" where
  "getRefreshedSession l rt st =
     (case getRefreshedSession_body l rt st of
        (r, st') \<Rightarrow> (r, effect CallReleaseLock (ReleaseLock (store l)) st'))"

definition ensureSessionIsValid ::
  "('s, 'w) storedSessionLoader \<Rightarrow> ('s, 'w) runtime \<Rightarrow> 's \<Rightarrow> ('s, 'w) state
     \<Rightarrow> ('s option \<times> error option) \<times> ('s, 'w) state" where
  "ensureSessionIsValid l rt session st =
     (if \<not> isRefreshPeriodOver l rt session st then ((Some session, None), st)
      else
        (case call CallIsRefreshSessionNeeded
                (isRefreshSessionNeededWithProvider l (Some session)) st of
           (needed, st1) \<Rightarrow>
             if needed then getRefreshedSession l rt st1
             else
               (case validateSession l rt session st1 of
                  (err, st2) \<Rightarrow>
                    (case err of
                       Some e \<Rightarrow> ((None, Some e), st2)
                     | None \<Rightarrow> ((Some session, None), st2)))))"

definition getValidatedSession ::
  "('s, 'w) storedSessionLoader \<Rightarrow> ('s, 'w) runtime \<Rightarrow> ('s, 'w) state
     \<Rightarrow> ('s option \<times> error option) \<times> ('s, 'w) state" where
  "getValidatedSession l rt st =
     (case call CallLoad (Load (store l)) st of
        ((session, err), st1) \<Rightarrow>
          (case err of
             Some e \<Rightarrow> ((None, Some e), st1)
           | None \<Rightarrow>
               (case session of
                  None \<Rightarrow> ((None, None), st1)
                | Some s \<Rightarrow> ensureSessionIsValid l rt s st1)))"

text \<open>
  The next handler sees the request scope and may change it and the world.
  \<^verbatim>\<open>GetRequestScope\<close> returns the scope pointer of the request; the handler
  dereferences it, which panics when no scope was injected.
\<close>

definition ServeHTTP ::
  "('s RequestScope \<Rightarrow> 'w \<Rightarrow> 's RequestScope \<times> 'w) \<Rightarrow> 's RequestScope \<Rightarrow> ('s, 'w) state
     \<Rightarrow> ('s, 'w) state" where
  "ServeHTTP next sc st =
     (case next sc (world st) of
        (sc', w') \<Rightarrow> st\<lparr>world := w', trace := trace st @ [CallNext], scope := Some sc'\<rparr>)"

definition loadSession ::
  "('s, 'w) storedSessionLoader \<Rightarrow> ('s, 'w) runtime
     \<Rightarrow> ('s RequestScope \<Rightarrow> 'w \<Rightarrow> 's RequestScope \<times> 'w) \<Rightarrow> ('s, 'w) state
     \<Rightarrow> panic + ('s, 'w) state" where
  "loadSession l rt next st =
     (case scope st of
        None \<Rightarrow> Inl NilPointerDereference
      | Some sc \<Rightarrow>
          if Session sc \<noteq> None then Inr (ServeHTTP next sc st)
          else
            (case getValidatedSession l rt st of
               ((session, err), st1) \<Rightarrow>
                 let st2 =
                       (case err of
                          None \<Rightarrow> st1
                        | Some e \<Rightarrow>
                            (case call CallClear (Clear (store l)) (logEvent LogErrorLoading st1) of
                               (err', st') \<Rightarrow>
                                 (case err' of
                                    Some e' \<Rightarrow> logEvent LogErrorRemoving st'
                                  | None \<Rightarrow> st')));
                     sc' = sc\<lparr>Session := session\<rparr>
                 in Inr (ServeHTTP next sc' (st2\<lparr>scope := Some sc'\<rparr>))))"

subsection \<open>Events by path\<close>

text \<open>
  The events the polling loop can add to the trace, those \<open>refreshSession\<close> can add,
  and those \<open>getValidatedSession\<close> and the functions below it can add.
\<close>

definition pollEvents :: "event set" where
  "pollEvents = {CallLoad, CallIsRefreshSessionNeeded, CallSleep}"

definition saveEvents :: "event set" where
  "saveEvents = {CallRefreshSession, CallSave, LogErrorSaving}"

definition validationEvents :: "event set" where
  "validationEvents =
     {CallLoad, CallLoadWithLock, CallReleaseLock, CallSave, CallRefreshSession,
      CallIsRefreshSessionNeeded, CallValidateSessionState, CallSleep, LogRefreshing,
      LogErrorSaving}"

section \<open>providers/session\_state.go\<close>

subsection \<open>Data and collaborators\<close>

text \<open>
  \<^verbatim>\<open>time.Time\<close> is modelled by the offset of the instant from the zero time, in
  nanoseconds (location and monotonic reading are not modelled); its printed form is a
  parameter \<open>fmtTime\<close> of \<open>String\<close>.
\<close>

type_synonym Time = int

definition IsZero :: "Time \<Rightarrow> bool" where
  "IsZero t = (t = 0)"

record SessionState =
  AccessToken :: string
  IDToken :: string
  ExpiresOn :: Time
  RefreshToken :: string
  Email :: string
  User :: string

text \<open>The zero value of the struct, as declared by \<^verbatim>\<open>var ss SessionState\<close>.\<close>

definition zeroSessionState :: SessionState where
  "zeroSessionState =
     \<lparr>AccessToken = [], IDToken = [], ExpiresOn = 0, RefreshToken = [], Email = [], User = []\<rparr>"

text \<open>
  \<^verbatim>\<open>cookie.Cipher\<close> and \<^verbatim>\<open>encoding/json\<close> (at type \<^verbatim>\<open>SessionState\<close>) are
  collaborators whose code is outside the file: they are parameters. A nil cipher is
  \<open>None\<close>. \<open>Unmarshal\<close> fills a pointer that starts nil, and leaves it nil (\<open>None\<close>)
  on the JSON value \<^verbatim>\<open>null\<close>.
\<close>

record Cipher =
  Encrypt :: "string \<Rightarrow> error + string"
  Decrypt :: "string \<Rightarrow> error + string"

record JSON =
  Marshal :: "SessionState \<Rightarrow> error + string"
  Unmarshal :: "string \<Rightarrow> error + SessionState option"

datatype 'a result = Ok 'a | Err error | Panic panic

text \<open>\<^verbatim>\<open>strings.Split(s, sep)\<close> for a separator \<open>sep\<close> of one byte.\<close>

fun Split :: "string \<Rightarrow> char \<Rightarrow> string list" where
  "Split [] sep = [[]]"
| "Split (x # xs) sep =
     (if x = sep then [] # Split xs sep
      else (case Split xs sep of
              [] \<Rightarrow> [[x]]
            | y # ys \<Rightarrow> (x # y) # ys))"

subsection \<open>String\<close>

definition String :: "(Time \<Rightarrow> string) \<Rightarrow> SessionState \<Rightarrow> string" where
  "String fmtTime s =
     (let o1 = ''Session{email:'' @ Email s @ '' user:'' @ User s;
          o2 = (if AccessToken s \<noteq> [] then o1 @ '' token:true'' else o1);
          o3 = (if IDToken s \<noteq> [] then o2 @ '' id_token:true'' else o2);
          o4 = (if \<not> IsZero (ExpiresOn s) then o3 @ ('' expires:'' @ fmtTime (ExpiresOn s)) else o3);
          o5 = (if RefreshToken s \<noteq> [] then o4 @ '' refresh_token:true'' else o4)
      in o5 @ ''}'')"

subsection \<open>EncodeSessionState\<close>

text \<open>
  The variables of one call: \<open>recv\<close> is the struct the receiver \<^verbatim>\<open>s\<close> points to,
  \<open>local_ss\<close> is the local \<^verbatim>\<open>var ss SessionState\<close>. Every assignment of the body is an
  update of this record, and the function returns the variables as they are when it
  returns, next to its result. (On a failed \<^verbatim>\<open>Encrypt\<close> the local field is left as it
  was; the local is dead from there on.)
\<close>

record EncodeVars =
  recv :: SessionState
  local_ss :: SessionState

text \<open>The three \<^verbatim>\<open>if ss.X != ""\<close> blocks of the cipher branch, in the order of the source.\<close>

definition encryptAccessToken :: "Cipher \<Rightarrow> EncodeVars \<Rightarrow> error + EncodeVars" where
  "encryptAccessToken ci v =
     (if AccessToken (local_ss v) \<noteq> [] then
        (case Encrypt ci (AccessToken (local_ss v)) of
           Inl err \<Rightarrow> Inl err
         | Inr x \<Rightarrow> Inr (v\<lparr>local_ss := (local_ss v)\<lparr>AccessToken := x\<rparr>\<rparr>))
      else Inr v)"

definition encryptIDToken :: "Cipher \<Rightarrow> EncodeVars \<Rightarrow> error + EncodeVars" where
  "encryptIDToken ci v =
     (if IDToken (local_ss v) \<noteq> [] then
        (case Encrypt ci (IDToken (local_ss v)) of
           Inl err \<Rightarrow> Inl err
         | Inr x \<Rightarrow> Inr (v\<lparr>local_ss := (local_ss v)\<lparr>IDToken := x\<rparr>\<rparr>))
      else Inr v)"

definition encryptRefreshToken :: "Cipher \<Rightarrow> EncodeVars \<Rightarrow> error + EncodeVars" where
  "encryptRefreshToken ci v =
     (if RefreshToken (local_ss v) \<noteq> [] then
        (case Encrypt ci (RefreshToken (local_ss v)) of
           Inl err \<Rightarrow> Inl err
         | Inr x \<Rightarrow> Inr (v\<lparr>local_ss := (local_ss v)\<lparr>RefreshToken := x\<rparr>\<rparr>))
      else Inr v)"

definition EncodeSessionState ::
  "JSON \<Rightarrow> SessionState \<Rightarrow> Cipher option \<Rightarrow> (error + string) \<times> EncodeVars" where
  "EncodeSessionState j s c =
     (let v0 = \<lparr>recv = s, local_ss = zeroSessionState\<rparr> in
      case c of
        None \<Rightarrow>
          (let v1 = v0\<lparr>local_ss := (local_ss v0)\<lparr>Email := Email (recv v0)\<rparr>\<rparr>;
               v2 = v1\<lparr>local_ss := (local_ss v1)\<lparr>User := User (recv v1)\<rparr>\<rparr>
           in (Marshal j (local_ss v2), v2))
      | Some ci \<Rightarrow>
          (let v1 = v0\<lparr>local_ss := recv v0\<rparr> in
           case encryptAccessToken ci v1 of
             Inl err \<Rightarrow> (Inl err, v1)
           | Inr v2 \<Rightarrow>
               (case encryptIDToken ci v2 of
                  Inl err \<Rightarrow> (Inl err, v2)
                | Inr v3 \<Rightarrow>
                    (case encryptRefreshToken ci v3 of
                       Inl err \<Rightarrow> (Inl err, v3)
                     | Inr v4 \<Rightarrow> (Marshal j (local_ss v4), v4)))))"

subsection \<open>DecodeSessionState\<close>

text \<open>The three \<^verbatim>\<open>if ss.X != ""\<close> blocks of the cipher branch, and the final back-fill.\<close>

definition decryptAccessToken :: "Cipher \<Rightarrow> SessionState \<Rightarrow> error + SessionState" where
  "decryptAccessToken ci ss =
     (if AccessToken ss \<noteq> [] then
        (case Decrypt ci (AccessToken ss) of
           Inl err \<Rightarrow> Inl err
         | Inr x \<Rightarrow> Inr (ss\<lparr>AccessToken := x\<rparr>))
      else Inr ss)"

definition decryptIDToken :: "Cipher \<Rightarrow> SessionState \<Rightarrow> error + SessionState" where
  "decryptIDToken ci ss =
     (if IDToken ss \<noteq> [] then
        (case Decrypt ci (IDToken ss) of
           Inl err \<Rightarrow> Inl err
         | Inr x \<Rightarrow> Inr (ss\<lparr>IDToken := x\<rparr>))
      else Inr ss)"

definition decryptRefreshToken :: "Cipher \<Rightarrow> SessionState \<Rightarrow> error + SessionState" where
  "decryptRefreshToken ci ss =
     (if RefreshToken ss \<noteq> [] then
        (case Decrypt ci (RefreshToken ss) of
           Inl err \<Rightarrow> Inl err
         | Inr x \<Rightarrow> Inr (ss\<lparr>RefreshToken := x\<rparr>))
      else Inr ss)"

definition backfillUser :: "SessionState \<Rightarrow> SessionState result" where
  "backfillUser ss =
     (if User ss = [] then
        (case Split (Email ss) (CHR ''@'') of
           [] \<Rightarrow> Panic IndexOutOfRange
         | x # xs \<Rightarrow> Ok (ss\<lparr>User := x\<rparr>))
      else Ok ss)"

definition DecodeSessionState :: "JSON \<Rightarrow> string \<Rightarrow> Cipher option \<Rightarrow> SessionState result" where
  "DecodeSessionState j v c =
     (case Unmarshal j v of
        Inl err \<Rightarrow> Err err
      | Inr s \<Rightarrow>
          (case c of
             None \<Rightarrow>
               (case s of
                  None \<Rightarrow> Panic NilPointerDereference
                | Some s' \<Rightarrow>
                    backfillUser (zeroSessionState\<lparr>Email := Email s', User := User s'\<rparr>))
           | Some ci \<Rightarrow>
               (case s of
                  None \<Rightarrow> Panic NilPointerDereference
                | Some s' \<Rightarrow>
                    (case decryptAccessToken ci s' of
                       Inl err \<Rightarrow> Err err
                     | Inr ss1 \<Rightarrow>
                         (case decryptIDToken ci ss1 of
                            Inl err \<Rightarrow> Err err
                          | Inr ss2 \<Rightarrow>
                              (case decryptRefreshToken ci ss2 of
                                 Inl err \<Rightarrow> Err err
                               | Inr ss3 \<Rightarrow> backfillUser ss3))))))"

section \<open>Concrete collaborators\<close>

text \<open>
  A store that answers every call with fixed results, a loader around it, a clock (the
  world is the time in nanoseconds, and every session was created at time 0), and a next
  handler that changes nothing. Sessions are named by strings.
\<close>

definition exStore ::
  "string option \<times> error option \<Rightarrow> string option \<times> error option \<Rightarrow> error option
     \<Rightarrow> (string, int) SessionStore" where
  "exStore loaded locked cleared =
     \<lparr>Save = (\<lambda>s w. (None, w)),
      Load = (\<lambda>w. (loaded, w)),
      Clear = (\<lambda>w. (cleared, w)),
      LoadWithLock = (\<lambda>w. (locked, w)),
      ReleaseLock = (\<lambda>w. w)\<rparr>"

definition exFailingStore :: "(string, int) SessionStore" where
  "exFailingStore =
     \<lparr>Save = (\<lambda>s w. (None, w)),
      Load = (\<lambda>w. if w < 200000000 then ((Some ''alice'', None), w)
                   else ((None, Some (ErrorsNew ''connection refused'')), w)),
      Clear = (\<lambda>w. (None, w)),
      LoadWithLock = (\<lambda>w. ((None, Some ErrNotLockable), w)),
      ReleaseLock = (\<lambda>w. w)\<rparr>"

definition exLoader ::
  "(string, int) SessionStore \<Rightarrow> int \<Rightarrow> bool \<Rightarrow> (string, int) storedSessionLoader" where
  "exLoader st period needed =
     \<lparr>store = st,
      refreshPeriod = period,
      refreshSessionWithProvider = (\<lambda>s w. (None, w)),
      isRefreshSessionNeededWithProvider = (\<lambda>s w. (needed, w)),
      validateSessionState = (\<lambda>s w. (True, w))\<rparr>"

definition exRuntime :: "(string, int) runtime" where
  "exRuntime = \<lparr>Age = (\<lambda>w s. w), IsExpired = (\<lambda>w s. False), Sleep = (\<lambda>d w. w + d)\<rparr>"

definition exState :: "int \<Rightarrow> string RequestScope option \<Rightarrow> (string, int) state" where
  "exState w sc = \<lparr>world = w, trace = [], scope = sc\<rparr>"

definition exNext :: "string RequestScope \<Rightarrow> int \<Rightarrow> string RequestScope \<times> int" where
  "exNext sc w = (sc, w)"

text \<open>
  A cipher that prefixes a marker byte, and a codec that joins the five string fields
  with a separator byte; the codec refuses a field that contains the separator and a
  non-zero time.
\<close>

definition exCipher :: Cipher where
  "exCipher =
     \<lparr>Encrypt = (\<lambda>x. Inr (CHR ''#'' # x)),
      Decrypt = (\<lambda>y. case y of
                   [] \<Rightarrow> Inl (ErrorsNew ''ciphertext too short'')
                 | a # x \<Rightarrow> if a = CHR ''#'' then Inr x
                           else Inl (ErrorsNew ''bad ciphertext''))\<rparr>"

definition exCodec :: JSON where
  "exCodec =
     \<lparr>Marshal = (\<lambda>t.
        if ExpiresOn t \<noteq> 0
           \<or> CHR ''|'' \<in> set (AccessToken t @ IDToken t @ RefreshToken t @ Email t @ User t)
        then Inl (ErrorsNew ''unsupported value'')
        else Inr (AccessToken t @ ''|'' @ IDToken t @ ''|'' @ RefreshToken t @ ''|'' @ Email t
                    @ ''|'' @ User t)),
      Unmarshal = (\<lambda>v.
        case Split v (CHR ''|'') of
          [a, i, r, e, u] \<Rightarrow>
            Inr (Some \<lparr>AccessToken = a, IDToken = i, ExpiresOn = 0, RefreshToken = r,
                       Email = e, User = u\<rparr>)
        | _ \<Rightarrow> Inl (ErrorsNew ''invalid input''))\<rparr>"

definition exSession :: "string \<Rightarrow> SessionState" where
  "exSession u =
     \<lparr>AccessToken = ''tok'', IDToken = [], ExpiresOn = 0, RefreshToken = ''r1'',
      Email = ''a@b.com'', User = u\<rparr>"

section \<open>Properties of the stored session loader\<close>

subsection \<open>What each function adds to the trace\<close>

lemma count_list_concat_replicate:
  "count_list (concat (replicate n xs)) x = n * count_list xs x"
  by (induction n) simp_all

lemma count_list_append_notin:
  "x \<notin> set evs \<Longrightarrow> count_list (xs @ evs) x = count_list xs x"
  by (induction xs) (simp_all add: count_list_0_iff)

lemma trace_ServeHTTP:
  "trace (ServeHTTP next sc st) = trace st @ [CallNext]"
  by (simp add: ServeHTTP_def split: prod.splits)

lemma refreshSession_trace:
  assumes "refreshSession l session st = (err, st')"
  shows "\<exists>evs. trace st' = trace st @ evs \<and> set evs \<subseteq> saveEvents"
  using assms
  by (auto simp: refreshSession_def call_def logEvent_def saveEvents_def
           split: prod.splits option.splits if_splits)

lemma validateSession_trace:
  assumes "validateSession l rt session st = (err, st')"
  shows "\<exists>evs. trace st' = trace st @ evs \<and> set evs \<subseteq> {CallValidateSessionState}"
  using assms
  by (auto simp: validateSession_def call_def split: prod.splits if_splits)

text \<open>
  The loop only polls: it adds events of \<open>pollEvents\<close>, starting with a \<open>Load\<close> when it
  runs at all, and an error it returns comes with a nil session.
\<close>

lemma retryLoop_trace:
  "retryLoop l rt i attempts st = ((session, err), st') \<Longrightarrow>
     (\<exists>evs. trace st' = trace st @ evs \<and> set evs \<subseteq> pollEvents
        \<and> (i < attempts \<longrightarrow> (\<exists>evs'. evs = CallLoad # evs')))
     \<and> (err \<noteq> None \<longrightarrow> session = None)"
proof (induction l rt i attempts st rule: retryLoop.induct)
  case (1 l rt i attempts st)
  show ?case
  proof (cases "i < attempts")
    case False
    with "1.prems" show ?thesis by (subst (asm) retryLoop.simps) auto
  next
    case lt: True
    obtain s0 e0 w1 where L: "Load (store l) (world st) = ((s0, e0), w1)"
      by (metis prod.exhaust)
    define st1 where "st1 = st\<lparr>world := w1, trace := trace st @ [CallLoad]\<rparr>"
    have C: "call CallLoad (Load (store l)) st = ((s0, e0), st1)"
      by (simp add: call_def L st1_def)
    show ?thesis
    proof (cases "\<exists>s. e0 = None \<and> s0 = Some s \<and> isRefreshPeriodOver l rt s st1
                    \<and> fst (isRefreshSessionNeededWithProvider l (Some s) (world st1))")
      case False
      with "1.prems" lt C show ?thesis
        by (subst (asm) retryLoop.simps)
           (auto simp: call_def st1_def pollEvents_def split: option.splits prod.splits if_splits)
    next
      case True
      then obtain s where e0: "e0 = None" and s0: "s0 = Some s"
        and over: "isRefreshPeriodOver l rt s st1"
        and need: "fst (isRefreshSessionNeededWithProvider l (Some s) (world st1))"
        by blast
      obtain w2 where N: "isRefreshSessionNeededWithProvider l (Some s) (world st1) = (True, w2)"
        using need by (cases "isRefreshSessionNeededWithProvider l (Some s) (world st1)") auto
      define st2 where "st2 = st1\<lparr>world := w2, trace := trace st1 @ [CallIsRefreshSessionNeeded]\<rparr>"
      have C2: "call CallIsRefreshSessionNeeded (isRefreshSessionNeededWithProvider l (Some s)) st1
                  = (True, st2)"
        by (simp add: call_def N st2_def)
      define st3 where "st3 = effect CallSleep (Sleep rt (100 * Millisecond)) st2"
      have rec: "retryLoop l rt (i + 1) attempts st3 = ((session, err), st')"
        using "1.prems" lt C C2 over e0 s0
        by (subst (asm) retryLoop.simps) (simp add: st3_def)
      have IH: "(\<exists>evs. trace st' = trace st3 @ evs \<and> set evs \<subseteq> pollEvents)
                  \<and> (err \<noteq> None \<longrightarrow> session = None)"
        using "1.IH"[OF lt C[symmetric] refl e0 s0 _ C2[symmetric] _ rec[unfolded st3_def]] over
        by (auto simp: st3_def)
      then obtain evs where T: "trace st' = trace st3 @ evs" and E: "set evs \<subseteq> pollEvents"
        by blast
      define evs0 where "evs0 = CallLoad # CallIsRefreshSessionNeeded # CallSleep # evs"
      have "trace st' = trace st @ evs0"
        using T by (simp add: evs0_def st3_def st2_def st1_def effect_def)
      moreover have "set evs0 \<subseteq> pollEvents"
        using E by (simp add: evs0_def pollEvents_def)
      moreover have "\<exists>evs'. evs0 = CallLoad # evs'"
        by (simp add: evs0_def)
      ultimately show ?thesis using IH by blast
    qed
  qed
qed

lemma retryLoop_error_shape:
  "retryLoop l rt i attempts st = ((session, Some e), st') \<Longrightarrow>
     \<exists>k. int k < attempts - i
       \<and> trace st' = trace st
             @ concat (replicate k [CallLoad, CallIsRefreshSessionNeeded, CallSleep])
             @ [CallLoad]"
proof (induction l rt i attempts st rule: retryLoop.induct)
  case (1 l rt i attempts st)
  show ?case
  proof (cases "i < attempts")
    case False
    with "1.prems" show ?thesis by (subst (asm) retryLoop.simps) auto
  next
    case lt: True
    obtain s0 e0 w1 where L: "Load (store l) (world st) = ((s0, e0), w1)"
      by (metis prod.exhaust)
    define st1 where "st1 = st\<lparr>world := w1, trace := trace st @ [CallLoad]\<rparr>"
    have C: "call CallLoad (Load (store l)) st = ((s0, e0), st1)"
      by (simp add: call_def L st1_def)
    show ?thesis
    proof (cases "\<exists>s. e0 = None \<and> s0 = Some s \<and> isRefreshPeriodOver l rt s st1
                    \<and> fst (isRefreshSessionNeededWithProvider l (Some s) (world st1))")
      case False
      with "1.prems" lt C have "st' = st1"
        by (subst (asm) retryLoop.simps)
           (auto simp: call_def split: option.splits prod.splits if_splits)
      then have "trace st' = trace st
             @ concat (replicate 0 [CallLoad, CallIsRefreshSessionNeeded, CallSleep])
             @ [CallLoad]"
        by (simp add: st1_def)
      moreover have "int 0 < attempts - i" using lt by simp
      ultimately show ?thesis by blast
    next
      case True
      then obtain s where e0: "e0 = None" and s0: "s0 = Some s"
        and over: "isRefreshPeriodOver l rt s st1"
        and need: "fst (isRefreshSessionNeededWithProvider l (Some s) (world st1))"
        by blast
      obtain w2 where N: "isRefreshSessionNeededWithProvider l (Some s) (world st1) = (True, w2)"
        using need by (cases "isRefreshSessionNeededWithProvider l (Some s) (world st1)") auto
      define st2 where "st2 = st1\<lparr>world := w2, trace := trace st1 @ [CallIsRefreshSessionNeeded]\<rparr>"
      have C2: "call CallIsRefreshSessionNeeded (isRefreshSessionNeededWithProvider l (Some s)) st1
                  = (True, st2)"
        by (simp add: call_def N st2_def)
      define st3 where "st3 = effect CallSleep (Sleep rt (100 * Millisecond)) st2"
      have rec: "retryLoop l rt (i + 1) attempts st3 = ((session, Some e), st')"
        using "1.prems" lt C C2 over e0 s0
        by (subst (asm) retryLoop.simps) (simp add: st3_def)
      have "\<exists>k. int k < attempts - (i + 1)
              \<and> trace st' = trace st3
                  @ concat (replicate k [CallLoad, CallIsRefreshSessionNeeded, CallSleep])
                  @ [CallLoad]"
        using "1.IH"[OF lt C[symmetric] refl e0 s0 _ C2[symmetric] _ rec[unfolded st3_def]] over
        by (simp add: st3_def)
      then obtain k where K: "int k < attempts - (i + 1)"
        and T: "trace st' = trace st3
                  @ concat (replicate k [CallLoad, CallIsRefreshSessionNeeded, CallSleep])
                  @ [CallLoad]"
        by blast
      have "trace st' = trace st
              @ concat (replicate (Suc k) [CallLoad, CallIsRefreshSessionNeeded, CallSleep])
              @ [CallLoad]"
        using T by (simp add: st3_def st2_def st1_def effect_def)
      moreover have "int (Suc k) < attempts - i" using K by simp
      ultimately show ?thesis by blast
    qed
  qed
qed

lemma getRefreshedSession_body_trace:
  assumes "getRefreshedSession_body l rt st = ((session, err), st')"
  shows "(\<exists>evs. trace st' = trace st @ evs \<and> set evs \<subseteq> validationEvents - {CallReleaseLock})
           \<and> (err \<noteq> None \<longrightarrow> session = None)"
proof -
  obtain s0 e0 w1 where L: "LoadWithLock (store l) (world st) = ((s0, e0), w1)"
    by (metis prod.exhaust)
  define st1 where "st1 = st\<lparr>world := w1, trace := trace st @ [CallLoadWithLock]\<rparr>"
  have C: "call CallLoadWithLock (LoadWithLock (store l)) st = ((s0, e0), st1)"
    by (simp add: call_def L st1_def)
  show ?thesis
  proof (cases "e0 = Some ErrNotLockable")
    case True
    then have "retryLoop l rt 0 10 st1 = ((session, err), st')"
      using assms C by (simp add: getRefreshedSession_body_def retryLoadingValidSession_def)
    from retryLoop_trace[OF this] obtain evs where
      T: "trace st' = trace st1 @ evs" and E: "set evs \<subseteq> pollEvents"
      and N: "err \<noteq> None \<longrightarrow> session = None"
      by blast
    have "trace st' = trace st @ (CallLoadWithLock # evs)" using T by (simp add: st1_def)
    moreover have "set (CallLoadWithLock # evs) \<subseteq> validationEvents - {CallReleaseLock}"
      using E by (auto simp: pollEvents_def validationEvents_def)
    ultimately show ?thesis using N by blast
  next
    case False
    show ?thesis
    proof (cases "\<exists>s. e0 = None \<and> s0 = Some s
                    \<and> fst (isRefreshSessionNeededWithProvider l (Some s) (world st1))")
      case False
      with assms C \<open>e0 \<noteq> Some ErrNotLockable\<close> show ?thesis
        by (auto simp: getRefreshedSession_body_def call_def st1_def validationEvents_def
                 split: option.splits prod.splits if_splits)
    next
      case True
      then obtain s where e0: "e0 = None" and s0: "s0 = Some s"
        and need: "fst (isRefreshSessionNeededWithProvider l (Some s) (world st1))"
        by blast
      obtain w2 where N: "isRefreshSessionNeededWithProvider l (Some s) (world st1) = (True, w2)"
        using need by (cases "isRefreshSessionNeededWithProvider l (Some s) (world st1)") auto
      define st2 where "st2 = logEvent LogRefreshing
          (st1\<lparr>world := w2, trace := trace st1 @ [CallIsRefreshSessionNeeded]\<rparr>)"
      obtain e3 st3 where R: "refreshSession l (Some s) st2 = (e3, st3)"
        by (metis prod.exhaust)
      from refreshSession_trace[OF R] obtain evs where
        T: "trace st3 = trace st2 @ evs" and E: "set evs \<subseteq> saveEvents"
        by blast
      have res: "st' = st3 \<and> (err \<noteq> None \<longrightarrow> session = None)"
        using assms C e0 s0 N R
        by (auto simp: getRefreshedSession_body_def call_def st2_def split: option.splits)
      have "trace st3 = trace st
              @ ([CallLoadWithLock, CallIsRefreshSessionNeeded, LogRefreshing] @ evs)"
        using T by (simp add: st2_def st1_def logEvent_def)
      moreover have "set ([CallLoadWithLock, CallIsRefreshSessionNeeded, LogRefreshing] @ evs)
                       \<subseteq> validationEvents - {CallReleaseLock}"
        using E by (auto simp: saveEvents_def validationEvents_def)
      ultimately show ?thesis using res by blast
    qed
  qed
qed

lemma getRefreshedSession_trace:
  assumes "getRefreshedSession l rt st = ((session, err), st')"
  shows "(\<exists>evs. trace st' = trace st @ evs \<and> set evs \<subseteq> validationEvents)
           \<and> (err \<noteq> None \<longrightarrow> session = None)"
proof -
  obtain st1 where B: "getRefreshedSession_body l rt st = ((session, err), st1)"
    and S: "st' = effect CallReleaseLock (ReleaseLock (store l)) st1"
    using assms by (auto simp: getRefreshedSession_def split: prod.splits)
  from getRefreshedSession_body_trace[OF B] obtain evs where
    T: "trace st1 = trace st @ evs" and E: "set evs \<subseteq> validationEvents - {CallReleaseLock}"
    and N: "err \<noteq> None \<longrightarrow> session = None"
    by blast
  have "trace st' = trace st @ (evs @ [CallReleaseLock])"
    using T S by (simp add: effect_def)
  moreover have "set (evs @ [CallReleaseLock]) \<subseteq> validationEvents"
    using E by (auto simp: validationEvents_def)
  ultimately show ?thesis using N by blast
qed

lemma ensureSessionIsValid_trace:
  assumes "ensureSessionIsValid l rt s st = ((session, err), st')"
  shows "(\<exists>evs. trace st' = trace st @ evs \<and> set evs \<subseteq> validationEvents)
           \<and> (err \<noteq> None \<longrightarrow> session = None)"
proof (cases "isRefreshPeriodOver l rt s st")
  case False
  with assms have "st' = st" "err = None" by (auto simp: ensureSessionIsValid_def)
  then show ?thesis by simp
next
  case over: True
  obtain b w1 where N: "isRefreshSessionNeededWithProvider l (Some s) (world st) = (b, w1)"
    by (metis prod.exhaust)
  define st1 where "st1 = st\<lparr>world := w1, trace := trace st @ [CallIsRefreshSessionNeeded]\<rparr>"
  have C: "call CallIsRefreshSessionNeeded (isRefreshSessionNeededWithProvider l (Some s)) st
             = (b, st1)"
    by (simp add: call_def N st1_def)
  have "\<exists>evs. trace st' = trace st1 @ evs \<and> set evs \<subseteq> validationEvents
           \<and> (err \<noteq> None \<longrightarrow> session = None)"
  proof (cases b)
    case True
    then have "getRefreshedSession l rt st1 = ((session, err), st')"
      using assms over C by (simp add: ensureSessionIsValid_def)
    from getRefreshedSession_trace[OF this] show ?thesis by blast
  next
    case False
    obtain e2 st2 where V: "validateSession l rt s st1 = (e2, st2)"
      by (metis prod.exhaust)
    from validateSession_trace[OF V] obtain evs where
      T: "trace st2 = trace st1 @ evs" and E: "set evs \<subseteq> {CallValidateSessionState}"
      by blast
    have "st' = st2 \<and> (err \<noteq> None \<longrightarrow> session = None)"
      using assms over C False V by (auto simp: ensureSessionIsValid_def split: option.splits)
    moreover have "set evs \<subseteq> validationEvents" using E by (auto simp: validationEvents_def)
    ultimately show ?thesis using T by blast
  qed
  then obtain evs where T: "trace st' = trace st1 @ evs" and E: "set evs \<subseteq> validationEvents"
    and R: "err \<noteq> None \<longrightarrow> session = None"
    by blast
  have "trace st' = trace st @ (CallIsRefreshSessionNeeded # evs)" using T by (simp add: st1_def)
  moreover have "set (CallIsRefreshSessionNeeded # evs) \<subseteq> validationEvents"
    using E by (simp add: validationEvents_def)
  ultimately show ?thesis using R by blast
qed

lemma getValidatedSession_trace:
  assumes "getValidatedSession l rt st = ((session, err), st')"
  shows "(\<exists>evs. trace st' = trace st @ evs \<and> set evs \<subseteq> validationEvents)
           \<and> (err \<noteq> None \<longrightarrow> session = None)"
proof -
  obtain s0 e0 w1 where L: "Load (store l) (world st) = ((s0, e0), w1)"
    by (metis prod.exhaust)
  define st1 where "st1 = st\<lparr>world := w1, trace := trace st @ [CallLoad]\<rparr>"
  have C: "call CallLoad (Load (store l)) st = ((s0, e0), st1)"
    by (simp add: call_def L st1_def)
  have "\<exists>evs. trace st' = trace st1 @ evs \<and> set evs \<subseteq> validationEvents
           \<and> (err \<noteq> None \<longrightarrow> session = None)"
  proof (cases "\<exists>s. e0 = None \<and> s0 = Some s")
    case True
    then obtain s where "e0 = None" "s0 = Some s" by blast
    then have "ensureSessionIsValid l rt s st1 = ((session, err), st')"
      using assms C by (simp add: getValidatedSession_def)
    from ensureSessionIsValid_trace[OF this] show ?thesis by blast
  next
    case False
    then have "st' = st1 \<and> (err \<noteq> None \<longrightarrow> session = None)"
      using assms C by (auto simp: getValidatedSession_def split: option.splits)
    then show ?thesis by simp
  qed
  then obtain evs where T: "trace st' = trace st1 @ evs" and E: "set evs \<subseteq> validationEvents"
    and R: "err \<noteq> None \<longrightarrow> session = None"
    by blast
  have "trace st' = trace st @ (CallLoad # evs)" using T by (simp add: st1_def)
  moreover have "set (CallLoad # evs) \<subseteq> validationEvents"
    using E by (simp add: validationEvents_def)
  ultimately show ?thesis using R by blast
qed

lemma getRefreshedSession_body_no_poll:
  assumes L: "LoadWithLock (store l) (world st) = ((s0, e0), w1)"
      and ne: "e0 \<noteq> Some ErrNotLockable"
      and B: "getRefreshedSession_body l rt st = (r, st')"
  shows "\<exists>evs. trace st' = trace st @ evs \<and> CallLoad \<notin> set evs"
proof -
  define st1 where "st1 = st\<lparr>world := w1, trace := trace st @ [CallLoadWithLock]\<rparr>"
  have C: "call CallLoadWithLock (LoadWithLock (store l)) st = ((s0, e0), st1)"
    by (simp add: call_def L st1_def)
  show ?thesis
  proof (cases "\<exists>s. e0 = None \<and> s0 = Some s
                  \<and> fst (isRefreshSessionNeededWithProvider l (Some s) (world st1))")
    case False
    with B C ne have "trace st' = trace st @ [CallLoadWithLock]
        \<or> trace st' = trace st @ [CallLoadWithLock, CallIsRefreshSessionNeeded]"
      by (auto simp: getRefreshedSession_body_def call_def st1_def
               split: option.splits prod.splits if_splits)
    then show ?thesis by auto
  next
    case True
    then obtain s where e0: "e0 = None" and s0: "s0 = Some s"
      and need: "fst (isRefreshSessionNeededWithProvider l (Some s) (world st1))"
      by blast
    obtain w2 where N: "isRefreshSessionNeededWithProvider l (Some s) (world st1) = (True, w2)"
      using need by (cases "isRefreshSessionNeededWithProvider l (Some s) (world st1)") auto
    define st2 where "st2 = logEvent LogRefreshing
        (st1\<lparr>world := w2, trace := trace st1 @ [CallIsRefreshSessionNeeded]\<rparr>)"
    obtain e3 st3 where R: "refreshSession l (Some s) st2 = (e3, st3)"
      by (metis prod.exhaust)
    from refreshSession_trace[OF R] obtain evs where
      T: "trace st3 = trace st2 @ evs" and E: "set evs \<subseteq> saveEvents"
      by blast
    have res: "st' = st3"
      using B C e0 s0 N R
      by (auto simp: getRefreshedSession_body_def call_def st2_def split: option.splits)
    define evs0 where "evs0 = CallLoadWithLock # CallIsRefreshSessionNeeded # LogRefreshing # evs"
    have "trace st3 = trace st @ evs0"
      using T by (simp add: evs0_def st2_def st1_def logEvent_def)
    moreover have "CallLoad \<notin> set evs0"
      using E by (auto simp: evs0_def saveEvents_def)
    ultimately show ?thesis using res by blast
  qed
qed

text \<open>
  While every poll finds a session that is still due and still to be refreshed, the loop
  runs all the iterations that are left and gives up with no session and no error.
\<close>

lemma retryLoop_pending:
  assumes pos: "0 < refreshPeriod l"
      and load: "\<forall>w. I w \<longrightarrow> (\<exists>s w' w''. Load (store l) w = ((Some s, None), w')
                   \<and> refreshPeriod l \<le> Age rt w' s
                   \<and> isRefreshSessionNeededWithProvider l (Some s) w' = (True, w'')
                   \<and> I (Sleep rt (100 * Millisecond) w''))"
      and inv: "I (world st)"
  shows "\<exists>st'. retryLoop l rt i attempts st = ((None, None), st')
           \<and> trace st' = trace st
               @ concat (replicate (nat (attempts - i)) [CallLoad, CallIsRefreshSessionNeeded, CallSleep])"
  using inv
proof (induction "nat (attempts - i)" arbitrary: i st)
  case 0
  then have "\<not> i < attempts" by simp
  then show ?case by (subst retryLoop.simps) simp
next
  case (Suc n)
  then have lt: "i < attempts" and n: "n = nat (attempts - (i + 1))" by linarith+
  from load Suc.prems obtain s w' w'' where
    L: "Load (store l) (world st) = ((Some s, None), w')"
    and A: "refreshPeriod l \<le> Age rt w' s"
    and N: "isRefreshSessionNeededWithProvider l (Some s) w' = (True, w'')"
    and I': "I (Sleep rt (100 * Millisecond) w'')"
    by blast
  define st2 where "st2 = effect CallSleep (Sleep rt (100 * Millisecond))
      (st\<lparr>world := w'', trace := trace st @ [CallLoad, CallIsRefreshSessionNeeded]\<rparr>)"
  have step: "retryLoop l rt i attempts st = retryLoop l rt (i + 1) attempts st2"
    using lt L A N pos
    by (subst retryLoop.simps) (simp add: call_def isRefreshPeriodOver_def st2_def)
  have "I (world st2)" using I' by (simp add: st2_def effect_def)
  from Suc.hyps(1)[OF n this] obtain st' where
    R: "retryLoop l rt (i + 1) attempts st2 = ((None, None), st')"
    and T: "trace st' = trace st2
               @ concat (replicate n [CallLoad, CallIsRefreshSessionNeeded, CallSleep])"
    using n by auto
  have "nat (attempts - i) = Suc n" using Suc.hyps(2) by simp
  then show ?case using step R T by (simp add: st2_def effect_def)
qed

subsection \<open>Contention\<close>

text \<open>
  C1. Let \<open>I\<close> describe the worlds met during the call: in each of them \<open>LoadWithLock\<close>
  fails with \<open>ErrNotLockable\<close>, and \<open>Load\<close> returns a session that is due for refresh
  (the refresh period is positive and the age of the session has reached it) and for
  which \<open>IsRefreshSessionNeeded\<close> answers true. Then \<open>getRefreshedSession\<close> returns no
  session and no error; between \<open>LoadWithLock\<close> and \<open>ReleaseLock\<close> it has polled exactly
  ten times (\<open>Load\<close>, \<open>IsRefreshSessionNeeded\<close>, \<open>Sleep\<close>), so \<open>Load\<close> was called
  exactly 10 times and \<open>RefreshSession\<close> not at all.
\<close>

theorem getRefreshedSession_contention_exhausted:
  assumes period: "0 < refreshPeriod l"
      and start: "I (world st)"
      and locked: "\<forall>w. I w \<longrightarrow> (\<exists>s w'. LoadWithLock (store l) w = ((s, Some ErrNotLockable), w')
                   \<and> I w')"
      and due: "\<forall>w. I w \<longrightarrow> (\<exists>s w' w''. Load (store l) w = ((Some s, None), w')
                   \<and> refreshPeriod l \<le> Age rt w' s
                   \<and> isRefreshSessionNeededWithProvider l (Some s) w' = (True, w'')
                   \<and> I (Sleep rt (100 * Millisecond) w''))"
  shows "\<exists>st'. getRefreshedSession l rt st = ((None, None), st')
           \<and> trace st' = trace st @ [CallLoadWithLock]
               @ concat (replicate 10 [CallLoad, CallIsRefreshSessionNeeded, CallSleep])
               @ [CallReleaseLock]
           \<and> count_list (trace st') CallLoad = count_list (trace st) CallLoad + 10
           \<and> count_list (trace st') CallRefreshSession = count_list (trace st) CallRefreshSession"
proof -
  from locked start obtain s w1 where
    L: "LoadWithLock (store l) (world st) = ((s, Some ErrNotLockable), w1)"
    and I1: "I w1"
    by blast
  define st1 where "st1 = st\<lparr>world := w1, trace := trace st @ [CallLoadWithLock]\<rparr>"
  have "I (world st1)" using I1 by (simp add: st1_def)
  from retryLoop_pending[OF period due this, of 0 10] obtain st2 where
    R: "retryLoop l rt 0 10 st1 = ((None, None), st2)"
    and T: "trace st2 = trace st1
              @ concat (replicate 10 [CallLoad, CallIsRefreshSessionNeeded, CallSleep])"
    by auto
  define st3 where "st3 = effect CallReleaseLock (ReleaseLock (store l)) st2"
  have G: "getRefreshedSession l rt st = ((None, None), st3)"
    using L R
    by (simp add: getRefreshedSession_def getRefreshedSession_body_def call_def
                  retryLoadingValidSession_def st1_def st3_def)
  have T3: "trace st3 = trace st @ [CallLoadWithLock]
               @ concat (replicate 10 [CallLoad, CallIsRefreshSessionNeeded, CallSleep])
               @ [CallReleaseLock]"
    using T by (simp add: st3_def st1_def effect_def)
  have "count_list (trace st3) CallLoad = count_list (trace st) CallLoad + 10"
    unfolding T3 by (simp add: count_list_concat_replicate)
  moreover have "count_list (trace st3) CallRefreshSession
                   = count_list (trace st) CallRefreshSession"
    unfolding T3 by (simp add: count_list_concat_replicate)
  ultimately show ?thesis using G T3 by blast
qed

theorem getRefreshedSession_contention_exhausted_witness:
  "\<exists>st'. getRefreshedSession
           (exLoader (exStore (Some ''alice'', None) (None, Some ErrNotLockable) None) 3600 True)
           exRuntime (exState 7200 None) = ((None, None), st')
       \<and> trace st' = [CallLoadWithLock]
               @ concat (replicate 10 [CallLoad, CallIsRefreshSessionNeeded, CallSleep])
               @ [CallReleaseLock]
       \<and> count_list (trace st') CallLoad = 10
       \<and> count_list (trace st') CallRefreshSession = 0"
  using getRefreshedSession_contention_exhausted
          [where l = "exLoader (exStore (Some ''alice'', None) (None, Some ErrNotLockable) None)
                        3600 True"
             and I = "\<lambda>w. 3600 \<le> w" and rt = exRuntime and st = "exState 7200 None"]
  by (simp add: exLoader_def exStore_def exRuntime_def exState_def Millisecond_def)

text \<open>
  C3. When \<open>LoadWithLock\<close> returns a session \<open>s\<close> and no error, and
  \<open>IsRefreshSessionNeeded\<close> answers false for \<open>s\<close>, \<open>getRefreshedSession\<close> returns \<open>s\<close>
  and no error, and the only calls it has made are \<open>LoadWithLock\<close>,
  \<open>IsRefreshSessionNeeded\<close> and \<open>ReleaseLock\<close>: neither \<open>RefreshSession\<close> nor \<open>Save\<close>.
\<close>

theorem getRefreshedSession_no_longer_needed:
  assumes "LoadWithLock (store l) (world st) = ((Some s, None), w1)"
      and "isRefreshSessionNeededWithProvider l (Some s) w1 = (False, w2)"
  shows "getRefreshedSession l rt st =
           ((Some s, None),
            st\<lparr>world := ReleaseLock (store l) w2,
               trace := trace st
                 @ [CallLoadWithLock, CallIsRefreshSessionNeeded, CallReleaseLock]\<rparr>)"
  using assms
  by (simp add: getRefreshedSession_def getRefreshedSession_body_def call_def effect_def)

theorem getRefreshedSession_no_longer_needed_witness:
  "getRefreshedSession
     (exLoader (exStore (None, None) (Some ''alice'', None) None) 3600 False)
     exRuntime (exState 7200 None)
   = ((Some ''alice'', None),
      \<lparr>world = 7200,
       trace = [CallLoadWithLock, CallIsRefreshSessionNeeded, CallReleaseLock],
       scope = None\<rparr>)"
  using getRefreshedSession_no_longer_needed
          [where l = "exLoader (exStore (None, None) (Some ''alice'', None) None) 3600 False"
             and rt = exRuntime and st = "exState 7200 None" and s = "''alice''"
             and ?w1.0 = 7200 and ?w2.0 = 7200]
  by (simp add: exLoader_def exStore_def exState_def)

text \<open>
  C4. Whatever \<open>LoadWithLock\<close> returns: if its error is \<open>ErrNotLockable\<close>,
  \<open>getRefreshedSession\<close> returns what \<open>retryLoadingValidSession\<close> with 10 attempts
  returns (and releases the lock); any other error is returned as it is, with a nil
  session, after \<open>LoadWithLock\<close> and \<open>ReleaseLock\<close> alone; and \<open>getRefreshedSession\<close>
  polls the store with \<open>Load\<close> if and only if the error was \<open>ErrNotLockable\<close>.
\<close>

theorem getRefreshedSession_retry_iff_not_lockable:
  assumes L: "LoadWithLock (store l) (world st) = ((session, err), w1)"
  shows "(err = Some ErrNotLockable \<longrightarrow>
            getRefreshedSession l rt st =
              (case retryLoadingValidSession l rt 10
                      (st\<lparr>world := w1, trace := trace st @ [CallLoadWithLock]\<rparr>) of
                 (r, st') \<Rightarrow> (r, effect CallReleaseLock (ReleaseLock (store l)) st')))
       \<and> (\<forall>e. err = Some e \<and> e \<noteq> ErrNotLockable \<longrightarrow>
            getRefreshedSession l rt st =
              ((None, Some e),
               st\<lparr>world := ReleaseLock (store l) w1,
                  trace := trace st @ [CallLoadWithLock, CallReleaseLock]\<rparr>))
       \<and> (count_list (trace st) CallLoad
            < count_list (trace (snd (getRefreshedSession l rt st))) CallLoad
          \<longleftrightarrow> err = Some ErrNotLockable)"
proof (intro conjI allI impI)
  assume "err = Some ErrNotLockable"
  then show "getRefreshedSession l rt st =
              (case retryLoadingValidSession l rt 10
                      (st\<lparr>world := w1, trace := trace st @ [CallLoadWithLock]\<rparr>) of
                 (r, st') \<Rightarrow> (r, effect CallReleaseLock (ReleaseLock (store l)) st'))"
    using L by (simp add: getRefreshedSession_def getRefreshedSession_body_def call_def)
next
  fix e
  assume "err = Some e \<and> e \<noteq> ErrNotLockable"
  then show "getRefreshedSession l rt st =
              ((None, Some e),
               st\<lparr>world := ReleaseLock (store l) w1,
                  trace := trace st @ [CallLoadWithLock, CallReleaseLock]\<rparr>)"
    using L
    by (simp add: getRefreshedSession_def getRefreshedSession_body_def call_def effect_def)
next
  obtain r st1 where B: "getRefreshedSession_body l rt st = (r, st1)"
    by (metis prod.exhaust)
  have G: "trace (snd (getRefreshedSession l rt st)) = trace st1 @ [CallReleaseLock]"
    using B by (simp add: getRefreshedSession_def effect_def)
  show "count_list (trace st) CallLoad
          < count_list (trace (snd (getRefreshedSession l rt st))) CallLoad
        \<longleftrightarrow> err = Some ErrNotLockable"
  proof (cases "err = Some ErrNotLockable")
    case True
    define st0 where "st0 = st\<lparr>world := w1, trace := trace st @ [CallLoadWithLock]\<rparr>"
    have "retryLoop l rt 0 10 st0 = ((fst r, snd r), st1)"
      using B L True
      by (simp add: getRefreshedSession_body_def call_def retryLoadingValidSession_def st0_def)
    from retryLoop_trace[OF this] obtain evs' where
      "trace st1 = trace st0 @ CallLoad # evs'"
      by auto
    then have "trace st1 = trace st @ CallLoadWithLock # CallLoad # evs'"
      by (simp add: st0_def)
    then show ?thesis using True G by simp
  next
    case False
    from getRefreshedSession_body_no_poll[OF L False B] obtain evs where
      T: "trace st1 = trace st @ evs" and E: "CallLoad \<notin> set evs"
      by blast
    have "count_list (trace st1) CallLoad = count_list (trace st) CallLoad"
      unfolding T using E by (rule count_list_append_notin)
    then show ?thesis using False G by simp
  qed
qed

theorem getRefreshedSession_retry_iff_not_lockable_witness:
  "getRefreshedSession
     (exLoader (exStore (None, None) (None, Some ErrNotLockable) None) 3600 True)
     exRuntime (exState 7200 None)
   = ((None, None), \<lparr>world = 7200, trace = [CallLoadWithLock, CallLoad, CallReleaseLock], scope = None\<rparr>)
   \<and> getRefreshedSession
     (exLoader (exStore (None, None) (None, Some (ErrorsNew ''connection refused'')) None)
        3600 True)
     exRuntime (exState 7200 None)
   = ((None, Some (ErrorsNew ''connection refused'')),
      \<lparr>world = 7200, trace = [CallLoadWithLock, CallReleaseLock], scope = None\<rparr>)"
  using getRefreshedSession_retry_iff_not_lockable
          [where l = "exLoader (exStore (None, None) (None, Some ErrNotLockable) None) 3600 True"
             and rt = exRuntime and st = "exState 7200 None"
             and session = None and err = "Some ErrNotLockable" and ?w1.0 = 7200]
        getRefreshedSession_retry_iff_not_lockable
          [where l = "exLoader (exStore (None, None)
                        (None, Some (ErrorsNew ''connection refused'')) None) 3600 True"
             and rt = exRuntime and st = "exState 7200 None"
             and session = None and err = "Some (ErrorsNew ''connection refused'')"
             and ?w1.0 = 7200]
  by (simp add: exLoader_def exStore_def exRuntime_def exState_def retryLoadingValidSession_def
                retryLoop.simps call_def effect_def)

text \<open>
  C9. At any iteration of the polling loop (\<open>i < attempts\<close>, in any state), if \<open>Load\<close>
  returns an error, the loop returns at once a nil session and that error: the only new
  event is this \<open>Load\<close>, however many attempts are left. And whenever
  \<open>retryLoadingValidSession\<close> returns an error, the session is nil and the call ended on
  a \<open>Load\<close>, after \<open>k < attempts\<close> full polls: nothing was called after the \<open>Load\<close>
  that failed.
\<close>

theorem retryLoadingValidSession_store_error:
  "(i < attempts \<and> Load (store l) (world st) = ((session, Some e), w') \<longrightarrow>
      retryLoop l rt i attempts st =
        ((None, Some e), st\<lparr>world := w', trace := trace st @ [CallLoad]\<rparr>))
   \<and> (retryLoadingValidSession l rt attempts st = ((session', Some e'), st') \<longrightarrow>
        session' = None
        \<and> (\<exists>k. int k < attempts
             \<and> trace st' = trace st
                 @ concat (replicate k [CallLoad, CallIsRefreshSessionNeeded, CallSleep])
                 @ [CallLoad]))"
proof (intro conjI impI)
  assume "i < attempts \<and> Load (store l) (world st) = ((session, Some e), w')"
  then show "retryLoop l rt i attempts st =
              ((None, Some e), st\<lparr>world := w', trace := trace st @ [CallLoad]\<rparr>)"
    by (subst retryLoop.simps) (simp add: call_def)
next
  assume "retryLoadingValidSession l rt attempts st = ((session', Some e'), st')"
  then show "session' = None"
    using retryLoop_trace[of l rt 0 attempts st session' "Some e'" st']
    by (simp add: retryLoadingValidSession_def)
next
  assume "retryLoadingValidSession l rt attempts st = ((session', Some e'), st')"
  then show "\<exists>k. int k < attempts
                 \<and> trace st' = trace st
                     @ concat (replicate k [CallLoad, CallIsRefreshSessionNeeded, CallSleep])
                     @ [CallLoad]"
    using retryLoop_error_shape[of l rt 0 attempts st session' e' st']
    by (simp add: retryLoadingValidSession_def)
qed

text \<open>
  A store that starts failing 200 ms after the first poll: the third \<open>Load\<close> fails, and
  the loop stops there, with seven attempts left.
\<close>

theorem retryLoadingValidSession_store_error_witness:
  "retryLoop (exLoader exFailingStore 3600 True) exRuntime 2 10
     \<lparr>world = 200007200,
      trace = [CallLoad, CallIsRefreshSessionNeeded, CallSleep,
               CallLoad, CallIsRefreshSessionNeeded, CallSleep],
      scope = None\<rparr>
   = ((None, Some (ErrorsNew ''connection refused'')),
      \<lparr>world = 200007200,
       trace = [CallLoad, CallIsRefreshSessionNeeded, CallSleep,
                CallLoad, CallIsRefreshSessionNeeded, CallSleep, CallLoad],
       scope = None\<rparr>)
   \<and> retryLoadingValidSession (exLoader exFailingStore 3600 True) exRuntime 10
       (exState 7200 None)
   = ((None, Some (ErrorsNew ''connection refused'')),
      \<lparr>world = 200007200,
       trace = [CallLoad, CallIsRefreshSessionNeeded, CallSleep,
                CallLoad, CallIsRefreshSessionNeeded, CallSleep, CallLoad],
       scope = None\<rparr>)"
  using retryLoadingValidSession_store_error
          [where l = "exLoader exFailingStore 3600 True" and rt = exRuntime
             and i = 2 and attempts = 10
             and st = "\<lparr>world = 200007200,
                         trace = [CallLoad, CallIsRefreshSessionNeeded, CallSleep,
                                  CallLoad, CallIsRefreshSessionNeeded, CallSleep],
                         scope = None\<rparr>"
             and session = None and e = "ErrorsNew ''connection refused''"
             and w' = 200007200 and session' = None
             and e' = "ErrorsNew ''connection refused''"
             and st' = "\<lparr>world = 200007200,
                          trace = [CallLoad, CallIsRefreshSessionNeeded, CallSleep,
                                   CallLoad, CallIsRefreshSessionNeeded, CallSleep, CallLoad],
                          scope = None\<rparr>"]
  by (simp add: exLoader_def exFailingStore_def exRuntime_def exState_def Millisecond_def
                retryLoadingValidSession_def retryLoop.simps call_def effect_def
                isRefreshPeriodOver_def)

subsection \<open>The fast path\<close>

text \<open>
  C7. With a refresh period of zero, \<open>ensureSessionIsValid\<close> returns the session it was
  given, with no error, for every session of positive age; the state is the one it
  started from, so the trace has no new event: neither \<open>IsRefreshSessionNeeded\<close> nor
  \<open>ValidateSessionState\<close> nor \<open>RefreshSession\<close> was called.
\<close>

theorem ensureSessionIsValid_refresh_disabled:
  assumes "refreshPeriod l = 0"
      and "0 < Age rt (world st) session"
  shows "ensureSessionIsValid l rt session st = ((Some session, None), st)"
  using assms by (simp add: ensureSessionIsValid_def isRefreshPeriodOver_def)

theorem ensureSessionIsValid_refresh_disabled_witness:
  "ensureSessionIsValid (exLoader (exStore (None, None) (None, None) None) 0 True) exRuntime
     ''alice'' (exState 7200 None)
   = ((Some ''alice'', None), exState 7200 None)"
  using ensureSessionIsValid_refresh_disabled
          [of "exLoader (exStore (None, None) (None, None) None) 0 True" exRuntime
              "exState 7200 None" "''alice''"]
  by (simp add: exLoader_def exRuntime_def exState_def)

subsection \<open>The handler\<close>

text \<open>
  C6. When the scope of the request already holds a session, \<open>loadSession\<close> is the next
  handler run on the state as it was: the scope, with its session, is the one the handler
  found, and the only new event is the call of the next handler, so no operation of the
  store (\<open>Load\<close>, \<open>LoadWithLock\<close>, \<open>Save\<close>, \<open>Clear\<close>) was called.
\<close>

theorem loadSession_pass_through:
  assumes "scope st = Some sc"
      and "Session sc = Some s"
  shows "loadSession l rt nxt st = Inr (ServeHTTP nxt sc st)
       \<and> trace (ServeHTTP nxt sc st) = trace st @ [CallNext]"
  using assms by (simp add: loadSession_def trace_ServeHTTP)

theorem loadSession_pass_through_witness:
  "loadSession (exLoader (exStore (None, Some (ErrorsNew ''unreachable'')) (None, None) None)
       3600 True)
     exRuntime exNext (exState 7200 (Some \<lparr>Session = Some ''alice''\<rparr>))
   = Inr \<lparr>world = 7200, trace = [CallNext], scope = Some \<lparr>Session = Some ''alice''\<rparr>\<rparr>"
  using loadSession_pass_through
          [where st = "exState 7200 (Some \<lparr>Session = Some ''alice''\<rparr>)"
             and sc = "\<lparr>Session = Some ''alice''\<rparr>" and s = "''alice''"
             and l = "exLoader (exStore (None, Some (ErrorsNew ''unreachable'')) (None, None) None)
                        3600 True"
             and rt = exRuntime and nxt = exNext]
  by (simp add: exState_def ServeHTTP_def exNext_def)

text \<open>
  C5. For a request with a scope that holds no session yet: when \<open>getValidatedSession\<close>
  returns an error, \<open>loadSession\<close> does not fail; it runs the next handler on a scope
  whose session is nil, after logging the error and calling \<open>Clear\<close>. Counted over the
  whole request, \<open>Clear\<close> is called exactly once and the next handler exactly once. When
  \<open>Clear\<close> fails as well, that error is logged and nothing else changes.
\<close>

theorem loadSession_defensive_clear:
  assumes sc: "scope st = Some sc"
      and nil: "Session sc = None"
      and gv: "getValidatedSession l rt st = ((session, Some e), st1)"
      and cl: "Clear (store l) (world st1) = (cerr, w2)"
  shows "\<exists>st2. loadSession l rt nxt st = Inr (ServeHTTP nxt (sc\<lparr>Session := None\<rparr>) st2)
           \<and> scope st2 = Some (sc\<lparr>Session := None\<rparr>)
           \<and> world st2 = w2
           \<and> trace st2 = trace st1 @ [LogErrorLoading, CallClear]
                 @ (if cerr = None then [] else [LogErrorRemoving])
           \<and> count_list (trace st2) CallClear = count_list (trace st) CallClear + 1
           \<and> count_list (trace (ServeHTTP nxt (sc\<lparr>Session := None\<rparr>) st2)) CallNext
                = count_list (trace st) CallNext + 1"
proof -
  from getValidatedSession_trace[OF gv] obtain evs where
    T: "trace st1 = trace st @ evs" and E: "set evs \<subseteq> validationEvents"
    and N: "session = None"
    by auto
  have notin: "CallClear \<notin> set evs" "CallNext \<notin> set evs"
    using E by (auto simp: validationEvents_def)
  have c1: "count_list (trace st1) CallClear = count_list (trace st) CallClear"
    unfolding T using notin(1) by (rule count_list_append_notin)
  have c2: "count_list (trace st1) CallNext = count_list (trace st) CallNext"
    unfolding T using notin(2) by (rule count_list_append_notin)
  define st2 where "st2 = st1\<lparr>world := w2,
      trace := trace st1 @ [LogErrorLoading, CallClear]
                 @ (if cerr = None then [] else [LogErrorRemoving]),
      scope := Some (sc\<lparr>Session := None\<rparr>)\<rparr>"
  have "loadSession l rt nxt st = Inr (ServeHTTP nxt (sc\<lparr>Session := None\<rparr>) st2)"
    using sc nil gv cl N
    by (cases cerr) (simp_all add: loadSession_def call_def logEvent_def st2_def Let_def)
  moreover have "count_list (trace st2) CallClear = count_list (trace st) CallClear + 1"
    using c1 by (simp add: st2_def)
  moreover have "count_list (trace (ServeHTTP nxt (sc\<lparr>Session := None\<rparr>) st2)) CallNext
                   = count_list (trace st) CallNext + 1"
    using c2 by (simp add: trace_ServeHTTP st2_def)
  ultimately show ?thesis by (auto simp: st2_def)
qed

theorem loadSession_defensive_clear_witness:
  "loadSession
     (exLoader (exStore (None, Some (ErrorsNew ''connection refused'')) (None, None)
                  (Some (ErrorsNew ''cannot clear''))) 3600 True)
     exRuntime exNext (exState 7200 (Some \<lparr>Session = None\<rparr>))
   = Inr \<lparr>world = 7200,
          trace = [CallLoad, LogErrorLoading, CallClear, LogErrorRemoving, CallNext],
          scope = Some \<lparr>Session = None\<rparr>\<rparr>"
  using loadSession_defensive_clear
          [where st = "exState 7200 (Some \<lparr>Session = None\<rparr>)"
             and sc = "\<lparr>Session = None\<rparr>"
             and l = "exLoader (exStore (None, Some (ErrorsNew ''connection refused''))
                        (None, None) (Some (ErrorsNew ''cannot clear''))) 3600 True"
             and rt = exRuntime and nxt = exNext and session = None
             and e = "ErrorsNew ''connection refused''"
             and ?st1.0 = "\<lparr>world = 7200, trace = [CallLoad], scope = Some \<lparr>Session = None\<rparr>\<rparr>"
             and cerr = "Some (ErrorsNew ''cannot clear'')" and ?w2.0 = 7200]
  by (auto simp: exState_def exLoader_def exStore_def getValidatedSession_def call_def
                 ServeHTTP_def exNext_def)

section \<open>Properties of the session state\<close>

subsection \<open>The parts of encoding and decoding\<close>

lemma Split_takeWhile:
  "\<exists>ys. Split s sep = takeWhile (\<lambda>a. a \<noteq> sep) s # ys"
  by (induction s) (auto split: list.splits)

lemma backfillUser_eq:
  "backfillUser t =
     Ok (t\<lparr>User := if User t = [] then takeWhile (\<lambda>a. a \<noteq> CHR ''@'') (Email t) else User t\<rparr>)"
proof -
  obtain ys where "Split (Email t) (CHR ''@'') = takeWhile (\<lambda>a. a \<noteq> CHR ''@'') (Email t) # ys"
    using Split_takeWhile by blast
  then show ?thesis by (simp add: backfillUser_def)
qed

lemma update_same:
  "AccessToken t = x \<Longrightarrow> t\<lparr>AccessToken := x\<rparr> = t"
  "IDToken t = x \<Longrightarrow> t\<lparr>IDToken := x\<rparr> = t"
  "RefreshToken t = x \<Longrightarrow> t\<lparr>RefreshToken := x\<rparr> = t"
  by auto

lemma encryptAccessToken_Inr:
  assumes "encryptAccessToken c v = Inr v'"
  shows "\<exists>a. v' = v\<lparr>local_ss := (local_ss v)\<lparr>AccessToken := a\<rparr>\<rparr>
           \<and> (if AccessToken (local_ss v) \<noteq> [] then Encrypt c (AccessToken (local_ss v)) = Inr a
               else a = [])"
  using assms by (auto simp: encryptAccessToken_def split: if_splits sum.splits)

lemma encryptIDToken_Inr:
  assumes "encryptIDToken c v = Inr v'"
  shows "\<exists>a. v' = v\<lparr>local_ss := (local_ss v)\<lparr>IDToken := a\<rparr>\<rparr>
           \<and> (if IDToken (local_ss v) \<noteq> [] then Encrypt c (IDToken (local_ss v)) = Inr a
               else a = [])"
  using assms by (auto simp: encryptIDToken_def split: if_splits sum.splits)

lemma encryptRefreshToken_Inr:
  assumes "encryptRefreshToken c v = Inr v'"
  shows "\<exists>a. v' = v\<lparr>local_ss := (local_ss v)\<lparr>RefreshToken := a\<rparr>\<rparr>
           \<and> (if RefreshToken (local_ss v) \<noteq> [] then Encrypt c (RefreshToken (local_ss v)) = Inr a
               else a = [])"
  using assms by (auto simp: encryptRefreshToken_def split: if_splits sum.splits)

lemma EncodeSessionState_Some:
  "EncodeSessionState j s (Some ci) =
     (case encryptAccessToken ci \<lparr>recv = s, local_ss = s\<rparr> of
        Inl err \<Rightarrow> (Inl err, \<lparr>recv = s, local_ss = s\<rparr>)
      | Inr v2 \<Rightarrow>
          (case encryptIDToken ci v2 of
             Inl err \<Rightarrow> (Inl err, v2)
           | Inr v3 \<Rightarrow>
               (case encryptRefreshToken ci v3 of
                  Inl err \<Rightarrow> (Inl err, v3)
                | Inr v4 \<Rightarrow> (Marshal j (local_ss v4), v4))))"
  by (simp add: EncodeSessionState_def Let_def split: sum.split)

lemma EncodeSessionState_cipher_Inr:
  assumes "fst (EncodeSessionState j s (Some c)) = Inr v"
  shows "\<exists>a i r.
           (if AccessToken s \<noteq> [] then Encrypt c (AccessToken s) = Inr a else a = [])
         \<and> (if IDToken s \<noteq> [] then Encrypt c (IDToken s) = Inr i else i = [])
         \<and> (if RefreshToken s \<noteq> [] then Encrypt c (RefreshToken s) = Inr r else r = [])
         \<and> Marshal j (s\<lparr>AccessToken := a, IDToken := i, RefreshToken := r\<rparr>) = Inr v"
proof -
  note E = assms[unfolded EncodeSessionState_Some]
  obtain v2 where 1: "encryptAccessToken c \<lparr>recv = s, local_ss = s\<rparr> = Inr v2"
    using E by (cases "encryptAccessToken c \<lparr>recv = s, local_ss = s\<rparr>") auto
  obtain v3 where 2: "encryptIDToken c v2 = Inr v3"
    using E 1 by (cases "encryptIDToken c v2") auto
  obtain v4 where 3: "encryptRefreshToken c v3 = Inr v4"
    using E 1 2 by (cases "encryptRefreshToken c v3") auto
  have M: "Marshal j (local_ss v4) = Inr v"
    using E 1 2 3 by simp
  from encryptAccessToken_Inr[OF 1] obtain a where
    a: "local_ss v2 = s\<lparr>AccessToken := a\<rparr>"
       "if AccessToken s \<noteq> [] then Encrypt c (AccessToken s) = Inr a else a = []"
    by (auto split: if_splits)
  from encryptIDToken_Inr[OF 2] obtain i where
    i: "local_ss v3 = s\<lparr>AccessToken := a, IDToken := i\<rparr>"
       "if IDToken s \<noteq> [] then Encrypt c (IDToken s) = Inr i else i = []"
    using a(1) by (auto split: if_splits)
  from encryptRefreshToken_Inr[OF 3] obtain r where
    r: "local_ss v4 = s\<lparr>AccessToken := a, IDToken := i, RefreshToken := r\<rparr>"
       "if RefreshToken s \<noteq> [] then Encrypt c (RefreshToken s) = Inr r else r = []"
    using i(1) by (auto split: if_splits)
  have "Marshal j (s\<lparr>AccessToken := a, IDToken := i, RefreshToken := r\<rparr>) = Inr v"
    using M by (simp add: r(1))
  with a(2) i(2) r(2) show ?thesis by blast
qed

lemma DecodeSessionState_cipher:
  assumes U: "Unmarshal j v = Inr (Some (s\<lparr>AccessToken := a, IDToken := i, RefreshToken := r\<rparr>))"
      and A: "if AccessToken s \<noteq> [] then a \<noteq> [] \<and> Decrypt c a = Inr (AccessToken s) else a = []"
      and I: "if IDToken s \<noteq> [] then i \<noteq> [] \<and> Decrypt c i = Inr (IDToken s) else i = []"
      and R: "if RefreshToken s \<noteq> [] then r \<noteq> [] \<and> Decrypt c r = Inr (RefreshToken s) else r = []"
  shows "DecodeSessionState j v (Some c) = backfillUser s"
proof -
  have 1: "decryptAccessToken c (s\<lparr>AccessToken := a, IDToken := i, RefreshToken := r\<rparr>)
             = Inr (s\<lparr>IDToken := i, RefreshToken := r\<rparr>)"
    using A by (auto simp: decryptAccessToken_def update_same split: if_splits)
  have 2: "decryptIDToken c (s\<lparr>IDToken := i, RefreshToken := r\<rparr>) = Inr (s\<lparr>RefreshToken := r\<rparr>)"
    using I by (auto simp: decryptIDToken_def update_same split: if_splits)
  have 3: "decryptRefreshToken c (s\<lparr>RefreshToken := r\<rparr>) = Inr s"
    using R by (auto simp: decryptRefreshToken_def update_same split: if_splits)
  show ?thesis
    by (simp add: DecodeSessionState_def U 1 2 3)
qed

lemma encrypt_recv:
  "encryptAccessToken c v = Inr v' \<Longrightarrow> recv v' = recv v"
  "encryptIDToken c v = Inr v' \<Longrightarrow> recv v' = recv v"
  "encryptRefreshToken c v = Inr v' \<Longrightarrow> recv v' = recv v"
  by (auto simp: encryptAccessToken_def encryptIDToken_def encryptRefreshToken_def
           split: if_splits sum.splits)

subsection \<open>The example cipher and codec\<close>

lemma exCipher_inverts:
  "Encrypt exCipher x = Inr y \<Longrightarrow> y \<noteq> [] \<and> Decrypt exCipher y = Inr x"
  by (auto simp: exCipher_def)

lemma Split_no_sep:
  "sep \<notin> set a \<Longrightarrow> Split a sep = [a]"
  by (induction a) auto

lemma Split_append_sep:
  "sep \<notin> set a \<Longrightarrow> Split (a @ sep # rest) sep = a # Split rest sep"
  by (induction a) auto

lemma exCodec_inverts:
  assumes "Marshal exCodec t = Inr v"
  shows "Unmarshal exCodec v = Inr (Some t)"
proof -
  have ok: "ExpiresOn t = 0" "CHR ''|'' \<notin> set (AccessToken t)" "CHR ''|'' \<notin> set (IDToken t)"
    "CHR ''|'' \<notin> set (RefreshToken t)" "CHR ''|'' \<notin> set (Email t)" "CHR ''|'' \<notin> set (User t)"
    using assms by (auto simp: exCodec_def split: if_splits)
  have v: "v = AccessToken t @ CHR ''|'' # IDToken t @ CHR ''|'' # RefreshToken t @ CHR ''|''
                 # Email t @ CHR ''|'' # User t"
    using assms by (auto simp: exCodec_def split: if_splits)
  have "Split v (CHR ''|'') = [AccessToken t, IDToken t, RefreshToken t, Email t, User t]"
    unfolding v by (simp add: Split_append_sep Split_no_sep ok)
  then show ?thesis using ok(1) by (simp add: exCodec_def)
qed

subsection \<open>Round trip\<close>

text \<open>
  C2, as amended. Let \<open>v\<close> be what \<open>EncodeSessionState\<close> returns for \<open>s\<close>, and let the
  codec decode \<open>v\<close> to the value it was marshalled from. With a cipher whose \<open>Encrypt\<close>
  gives, for a non-empty plaintext, a non-empty ciphertext that \<open>Decrypt\<close> maps back,
  \<open>DecodeSessionState\<close> returns \<open>s\<close> in every field, except that an empty \<open>User\<close> has
  become the part of \<open>Email\<close> before its first \<open>@\<close>. With no cipher it returns the value
  that has the \<open>Email\<close> and \<open>User\<close> of \<open>s\<close> and every other field empty, with the same
  exception for an empty \<open>User\<close>.
\<close>

theorem DecodeSessionState_EncodeSessionState:
  "(fst (EncodeSessionState j s (Some c)) = Inr v
      \<and> (\<forall>t. Marshal j t = Inr v \<longrightarrow> Unmarshal j v = Inr (Some t))
      \<and> (\<forall>x y. x \<noteq> [] \<and> Encrypt c x = Inr y \<longrightarrow> y \<noteq> [] \<and> Decrypt c y = Inr x)
    \<longrightarrow> DecodeSessionState j v (Some c)
          = Ok (s\<lparr>User := if User s = [] then takeWhile (\<lambda>a. a \<noteq> CHR ''@'') (Email s)
                            else User s\<rparr>))
   \<and> (fst (EncodeSessionState j s None) = Inr v'
      \<and> (\<forall>t. Marshal j t = Inr v' \<longrightarrow> Unmarshal j v' = Inr (Some t))
    \<longrightarrow> DecodeSessionState j v' None
          = Ok (zeroSessionState
                 \<lparr>Email := Email s,
                  User := if User s = [] then takeWhile (\<lambda>a. a \<noteq> CHR ''@'') (Email s)
                          else User s\<rparr>))"
proof (intro conjI impI)
  assume H: "fst (EncodeSessionState j s (Some c)) = Inr v
      \<and> (\<forall>t. Marshal j t = Inr v \<longrightarrow> Unmarshal j v = Inr (Some t))
      \<and> (\<forall>x y. x \<noteq> [] \<and> Encrypt c x = Inr y \<longrightarrow> y \<noteq> [] \<and> Decrypt c y = Inr x)"
  then have enc: "fst (EncodeSessionState j s (Some c)) = Inr v"
    and json: "\<And>t. Marshal j t = Inr v \<Longrightarrow> Unmarshal j v = Inr (Some t)"
    and cipher: "\<And>x y. x \<noteq> [] \<Longrightarrow> Encrypt c x = Inr y \<Longrightarrow> y \<noteq> [] \<and> Decrypt c y = Inr x"
    by blast+
  from EncodeSessionState_cipher_Inr[OF enc] obtain a i r where
    A: "if AccessToken s \<noteq> [] then Encrypt c (AccessToken s) = Inr a else a = []"
    and I: "if IDToken s \<noteq> [] then Encrypt c (IDToken s) = Inr i else i = []"
    and R: "if RefreshToken s \<noteq> [] then Encrypt c (RefreshToken s) = Inr r else r = []"
    and M: "Marshal j (s\<lparr>AccessToken := a, IDToken := i, RefreshToken := r\<rparr>) = Inr v"
    by blast
  have U: "Unmarshal j v = Inr (Some (s\<lparr>AccessToken := a, IDToken := i, RefreshToken := r\<rparr>))"
    using json[OF M] .
  have A': "if AccessToken s \<noteq> [] then a \<noteq> [] \<and> Decrypt c a = Inr (AccessToken s) else a = []"
    using A cipher[of "AccessToken s" a] by (cases "AccessToken s = []") simp_all
  have I': "if IDToken s \<noteq> [] then i \<noteq> [] \<and> Decrypt c i = Inr (IDToken s) else i = []"
    using I cipher[of "IDToken s" i] by (cases "IDToken s = []") simp_all
  have R': "if RefreshToken s \<noteq> [] then r \<noteq> [] \<and> Decrypt c r = Inr (RefreshToken s) else r = []"
    using R cipher[of "RefreshToken s" r] by (cases "RefreshToken s = []") simp_all
  show "DecodeSessionState j v (Some c)
          = Ok (s\<lparr>User := if User s = [] then takeWhile (\<lambda>a. a \<noteq> CHR ''@'') (Email s)
                            else User s\<rparr>)"
    using DecodeSessionState_cipher[OF U A' I' R'] by (simp add: backfillUser_eq)
next
  assume H: "fst (EncodeSessionState j s None) = Inr v'
      \<and> (\<forall>t. Marshal j t = Inr v' \<longrightarrow> Unmarshal j v' = Inr (Some t))"
  then have M: "Marshal j (zeroSessionState\<lparr>Email := Email s, User := User s\<rparr>) = Inr v'"
    by (simp add: EncodeSessionState_def Let_def)
  from H have "\<And>t. Marshal j t = Inr v' \<Longrightarrow> Unmarshal j v' = Inr (Some t)"
    by blast
  from this[OF M]
  have "Unmarshal j v' = Inr (Some (zeroSessionState\<lparr>Email := Email s, User := User s\<rparr>))" .
  then show "DecodeSessionState j v' None
          = Ok (zeroSessionState
                 \<lparr>Email := Email s,
                  User := if User s = [] then takeWhile (\<lambda>a. a \<noteq> CHR ''@'') (Email s)
                          else User s\<rparr>)"
    by (simp add: DecodeSessionState_def backfillUser_eq)
qed

theorem DecodeSessionState_EncodeSessionState_witness:
  "fst (EncodeSessionState exCodec (exSession ''alice'') (Some exCipher))
     = Inr ''#tok||#r1|a@b.com|alice''
   \<and> DecodeSessionState exCodec ''#tok||#r1|a@b.com|alice'' (Some exCipher)
       = Ok (exSession ''alice'')
   \<and> fst (EncodeSessionState exCodec (exSession ''alice'') None) = Inr ''|||a@b.com|alice''
   \<and> DecodeSessionState exCodec ''|||a@b.com|alice'' None
       = Ok (zeroSessionState\<lparr>Email := ''a@b.com'', User := ''alice''\<rparr>)"
proof -
  have e1: "fst (EncodeSessionState exCodec (exSession ''alice'') (Some exCipher))
              = Inr ''#tok||#r1|a@b.com|alice''"
    by (simp add: EncodeSessionState_def exCodec_def exCipher_def exSession_def
                  encryptAccessToken_def encryptIDToken_def encryptRefreshToken_def)
  have e2: "fst (EncodeSessionState exCodec (exSession ''alice'') None)
              = Inr ''|||a@b.com|alice''"
    by (simp add: EncodeSessionState_def exCodec_def exSession_def zeroSessionState_def)
  have c: "\<forall>x y. x \<noteq> [] \<and> Encrypt exCipher x = Inr y
             \<longrightarrow> y \<noteq> [] \<and> Decrypt exCipher y = Inr x"
    using exCipher_inverts by blast
  have j: "\<forall>v t. Marshal exCodec t = Inr v \<longrightarrow> Unmarshal exCodec v = Inr (Some t)"
    using exCodec_inverts by blast
  show ?thesis
    using DecodeSessionState_EncodeSessionState
            [of exCodec "exSession ''alice''" exCipher "''#tok||#r1|a@b.com|alice''"
                "''|||a@b.com|alice''"]
          e1 e2 c j
    by (simp add: exSession_def)
qed

text \<open>
  The claim without the exception fails for a session with an empty \<open>User\<close> and the
  \<open>Email\<close> \<open>a@b.com\<close>: decoding what was encoded gives \<open>User = a\<close>, with the cipher and
  without it (the cipher and the codec are those of \<open>exCipher_inverts\<close> and
  \<open>exCodec_inverts\<close>).
\<close>

theorem DecodeSessionState_EncodeSessionState_counterexample:
  "fst (EncodeSessionState exCodec (exSession []) (Some exCipher)) = Inr ''#tok||#r1|a@b.com|''
   \<and> DecodeSessionState exCodec ''#tok||#r1|a@b.com|'' (Some exCipher) = Ok (exSession ''a'')
   \<and> exSession ''a'' \<noteq> exSession []
   \<and> fst (EncodeSessionState exCodec (exSession []) None) = Inr ''|||a@b.com|''
   \<and> DecodeSessionState exCodec ''|||a@b.com|'' None
       = Ok (zeroSessionState\<lparr>Email := ''a@b.com'', User := ''a''\<rparr>)
   \<and> zeroSessionState\<lparr>Email := ''a@b.com'', User := ''a''\<rparr>
       \<noteq> zeroSessionState\<lparr>Email := Email (exSession []), User := User (exSession [])\<rparr>"
  by (simp add: EncodeSessionState_def DecodeSessionState_def exCodec_def exCipher_def
                exSession_def zeroSessionState_def backfillUser_def
                encryptAccessToken_def encryptIDToken_def encryptRefreshToken_def
                decryptAccessToken_def decryptIDToken_def decryptRefreshToken_def)

subsection \<open>Summary and receiver\<close>

text \<open>
  C8. Two session states with the same \<open>Email\<close>, \<open>User\<close> and \<open>ExpiresOn\<close>, and such that
  each of \<open>AccessToken\<close>, \<open>IDToken\<close> and \<open>RefreshToken\<close> is empty in both or in neither,
  have the same \<open>String\<close>: the summary depends on the tokens through their emptiness
  only.
\<close>

theorem String_hides_tokens:
  assumes "Email s = Email t" and "User s = User t" and "ExpiresOn s = ExpiresOn t"
      and "(AccessToken s = []) = (AccessToken t = [])"
      and "(IDToken s = []) = (IDToken t = [])"
      and "(RefreshToken s = []) = (RefreshToken t = [])"
  shows "String fmtTime s = String fmtTime t"
proof -
  have "(AccessToken s \<noteq> []) = (AccessToken t \<noteq> [])"
       "(IDToken s \<noteq> []) = (IDToken t \<noteq> [])"
       "(RefreshToken s \<noteq> []) = (RefreshToken t \<noteq> [])"
    using assms(4-6) by auto
  then show ?thesis
    unfolding String_def assms(1-3) by (simp only:)
qed

theorem String_hides_tokens_witness:
  "String (\<lambda>t. ''2030-01-01'') ((exSession ''alice'')\<lparr>ExpiresOn := 5\<rparr>)
     = String (\<lambda>t. ''2030-01-01'')
         ((exSession ''alice'')
            \<lparr>ExpiresOn := 5, AccessToken := ''secret'', RefreshToken := ''other''\<rparr>)
   \<and> String (\<lambda>t. ''2030-01-01'') ((exSession ''alice'')\<lparr>ExpiresOn := 5\<rparr>)
     = ''Session{email:a@b.com user:alice token:true expires:2030-01-01 refresh_token:true}''"
  using String_hides_tokens
          [of "(exSession ''alice'')\<lparr>ExpiresOn := 5\<rparr>"
              "(exSession ''alice'')
                 \<lparr>ExpiresOn := 5, AccessToken := ''secret'', RefreshToken := ''other''\<rparr>"
              "\<lambda>t. ''2030-01-01''"]
  by (simp add: exSession_def String_def IsZero_def)

text \<open>
  C10. After \<open>EncodeSessionState\<close> the struct behind the receiver is what it was before,
  for every session state, with or without a cipher, whether or not an \<open>Encrypt\<close> fails
  and whatever the codec does: the assignments of the body go to the local copy.
\<close>

theorem EncodeSessionState_receiver_unchanged:
  "recv (snd (EncodeSessionState j s c)) = s"
proof (cases c)
  case None
  then show ?thesis by (simp add: EncodeSessionState_def Let_def)
next
  case (Some ci)
  note E = EncodeSessionState_Some[of j s ci]
  show ?thesis
  proof (cases "encryptAccessToken ci \<lparr>recv = s, local_ss = s\<rparr>")
    case (Inl e)
    then show ?thesis by (simp add: Some E)
  next
    case 2: (Inr v2)
    from encrypt_recv(1)[OF 2] have r2: "recv v2 = s" by simp
    show ?thesis
    proof (cases "encryptIDToken ci v2")
      case (Inl e)
      then show ?thesis by (simp add: Some E 2 r2)
    next
      case 3: (Inr v3)
      from encrypt_recv(2)[OF 3] have r3: "recv v3 = s" by (simp add: r2)
      show ?thesis
      proof (cases "encryptRefreshToken ci v3")
        case (Inl e)
        then show ?thesis by (simp add: Some E 2 3 r3)
      next
        case 4: (Inr v4)
        from encrypt_recv(3)[OF 4] have "recv v4 = s" by (simp add: r3)
        then show ?thesis by (simp add: Some E 2 3 4)
      qed
    qed
  qed
qed

end
